theory Spec2Isabelle
  imports Main "HOL-Library.Word"
begin

unbundle bit_operations_syntax

section \<open>MerkleGrantRoundPayout: the claim ledger\<close>

text \<open>
  The contract \<open>MerkleGrantRoundPayout.sol\<close> keeps a packed bitmap of claimed
  indices, checks a Merkle proof against an immutable root and pays out an ERC20 token.
  Solidity's \<open>uint256\<close> and \<open>bytes32\<close> are 256-bit words, \<open>address\<close> is a
  160-bit word.
\<close>

type_synonym uint256 = "256 word"
type_synonym bytes32 = "256 word"
type_synonym address = "160 word"

text \<open>The struct \<open>Claim\<close> and the event \<open>Claimed\<close>.\<close>

record Claim =
  index :: uint256
  payee :: address
  amount :: uint256
  merkleProof :: "bytes32 list"

datatype event = Claimed uint256 address uint256

text \<open>
  Why a call reverts: a failed \<open>require\<close> with its message, or the revert that
  \<open>token.safeTransfer\<close> propagates when the token's transfer fails (its message is
  the token's or SafeERC20's own).
\<close>

datatype revert_reason = Require string | Transfer_failed

text \<open>
  What the contract is deployed with and what it imports. The immutable
  \<open>merkleRoot\<close> is a constructor argument. \<open>keccak256(abi.encodePacked(index,
  payee, amount))\<close>, OpenZeppelin's \<open>MerkleProof.verify\<close> and the ERC20 token
  behind \<open>SafeERC20.safeTransfer\<close> are not code of this contract: they are taken as
  parameters. \<open>safeTransfer tok to amt\<close> is the token's state after the contract sends
  \<open>amt\<close> to \<open>to\<close>, or \<open>None\<close> when the call reverts. The token is taken
  not to call back into this contract during the transfer.
\<close>

record 'tok deployment =
  merkleRoot :: bytes32
  keccak_packed :: "uint256 \<Rightarrow> address \<Rightarrow> uint256 \<Rightarrow> bytes32"
  verify :: "bytes32 list \<Rightarrow> bytes32 \<Rightarrow> bytes32 \<Rightarrow> bool"
  safeTransfer :: "'tok \<Rightarrow> address \<Rightarrow> uint256 \<Rightarrow> 'tok option"

text \<open>
  The state a transaction can change: the mapping \<open>claimedBitMap\<close> (every key of a
  Solidity mapping reads 0 until written), the token's state, and the log of emitted
  events.
\<close>

record 'tok chain =
  claimedBitMap :: "uint256 \<Rightarrow> uint256"
  token :: 'tok
  logs :: "event list"

subsection \<open>The bitmap\<close>

text \<open>
  \<open>_setClaimed\<close> (here \<open>setClaimed\<close>): word \<open>_index / 256\<close>, bit
  \<open>_index % 256\<close>. The literal
  \<open>1\<close> in \<open>1 << claimedBitIndex\<close> is a \<open>uint256\<close>, and the shift amount is
  below 256.
\<close>

definition setClaimed :: "uint256 \<Rightarrow> 'tok chain \<Rightarrow> 'tok chain" where
  "setClaimed i s =
     (let claimedWordIndex = i div 256;
          claimedBitIndex = i mod 256
      in s\<lparr>claimedBitMap := (claimedBitMap s)
             (claimedWordIndex :=
                claimedBitMap s claimedWordIndex OR push_bit (unat claimedBitIndex) 1)\<rparr>)"

text \<open>\<open>hasClaimed\<close>: in Solidity \<open>&\<close> binds tighter than \<open>==\<close>.\<close>

definition hasClaimed :: "'tok chain \<Rightarrow> uint256 \<Rightarrow> bool" where
  "hasClaimed s i =
     (let claimedWordIndex = i div 256;
          claimedBitIndex = i mod 256;
          claimedWord = claimedBitMap s claimedWordIndex;
          mask = push_bit (unat claimedBitIndex) 1
      in claimedWord AND mask = mask)"

subsection \<open>claim and batchClaim\<close>

text \<open>
  A call either reverts with a reason (\<open>Inl\<close>) or returns the new state
  (\<open>Inr\<close>). \<open>claim\<close> follows the source line by line: the two \<open>require\<close>s,
  \<open>_setClaimed\<close>, \<open>safeTransfer\<close>, \<open>emit\<close>.
\<close>

definition claim :: "'tok deployment \<Rightarrow> Claim \<Rightarrow> 'tok chain \<Rightarrow> revert_reason + 'tok chain" where
  "claim d c s =
     (if hasClaimed s (index c) then
        Inl (Require ''MerkleGrantRoundPayout: Funds already claimed'')
      else let node = keccak_packed d (index c) (payee c) (amount c) in
        if \<not> verify d (merkleProof c) (merkleRoot d) node then
          Inl (Require ''MerkleGrantRoundPayout: Invalid proof.'')
        else let s1 = setClaimed (index c) s in
          (case safeTransfer d (token s1) (payee c) (amount c) of
             None \<Rightarrow> Inl Transfer_failed
           | Some tok \<Rightarrow>
               Inr (s1\<lparr>token := tok,
                       logs := logs s1 @ [Claimed (index c) (payee c) (amount c)]\<rparr>)))"

text \<open>
  \<open>batchClaim\<close>: the \<open>for\<close> loop with its counter \<open>i\<close>. The length of a
  calldata array is far below \<open>2 ^ 256\<close>, so the checked \<open>i++\<close> never overflows
  and the counter is a natural number.
\<close>

function batchClaim_loop ::
  "'tok deployment \<Rightarrow> Claim list \<Rightarrow> nat \<Rightarrow> 'tok chain \<Rightarrow> revert_reason + 'tok chain" where
  "batchClaim_loop d cs i s =
     (if i < length cs then
        (case claim d (cs ! i) s of
           Inl e \<Rightarrow> Inl e
         | Inr s' \<Rightarrow> batchClaim_loop d cs (i + 1) s')
      else Inr s)"
  by pat_completeness auto
termination
  by (relation "measure (\<lambda>(d, cs, i, s). length cs - i)") auto

declare batchClaim_loop.simps [simp del]

definition batchClaim :: "'tok deployment \<Rightarrow> Claim list \<Rightarrow> 'tok chain \<Rightarrow> revert_reason + 'tok chain" where
  "batchClaim d cs s = batchClaim_loop d cs 0 s"

text \<open>
  A transaction that reverts leaves no trace: storage, token balances and logs are those
  before the call. \<open>transact\<close> is the state after the transaction and the revert reason,
  if any.
\<close>

definition transact ::
  "('tok chain \<Rightarrow> revert_reason + 'tok chain) \<Rightarrow> 'tok chain \<Rightarrow> 'tok chain \<times> revert_reason option" where
  "transact call s = (case call s of Inl e \<Rightarrow> (s, Some e) | Inr s' \<Rightarrow> (s', None))"

text \<open>
  The two entry points as transactions, and a sequence of transactions run one after the
  other from a state.
\<close>

datatype call = Call_claim Claim | Call_batchClaim "Claim list"

fun perform :: "'tok deployment \<Rightarrow> call \<Rightarrow> 'tok chain \<Rightarrow> revert_reason + 'tok chain" where
  "perform d (Call_claim c) = claim d c"
| "perform d (Call_batchClaim cs) = batchClaim d cs"

fun run :: "'tok deployment \<Rightarrow> call list \<Rightarrow> 'tok chain \<Rightarrow> 'tok chain" where
  "run d [] s = s"
| "run d (x # xs) s = run d xs (fst (transact (perform d x) s))"

text \<open>
  Calling \<open>claim(claims[0])\<close>, \<open>claim(claims[1])\<close>, ... one after the other is
  \<open>run\<close> on the list of these calls. Every one of them succeeds when the call for
  \<open>claims[k]\<close>, made from the state that the calls for \<open>claims[0..k-1]\<close> left,
  does not revert.
\<close>

definition each_call_succeeds :: "'tok deployment \<Rightarrow> Claim list \<Rightarrow> 'tok chain \<Rightarrow> bool" where
  "each_call_succeeds d cs s =
     (\<forall>k<length cs.
        snd (transact (claim d (cs ! k)) (run d (map Call_claim (take k cs)) s)) = None)"

text \<open>
  The calls of the loop body chained inside one transaction: \<open>claim(claims[0])\<close>,
  \<open>claim(claims[1])\<close>, and so on in array order, each from the state the one before
  left, stopping at the first revert.
\<close>

fun claims_in_order :: "'tok deployment \<Rightarrow> Claim list \<Rightarrow> 'tok chain \<Rightarrow> revert_reason + 'tok chain" where
  "claims_in_order d [] s = Inr s"
| "claims_in_order d (c # cs) s =
     (case claim d c s of Inl e \<Rightarrow> Inl e | Inr s' \<Rightarrow> claims_in_order d cs s')"

text \<open>The leaf \<open>claim\<close> checks, and whether the proof of a claim record verifies.\<close>

definition leaf :: "'tok deployment \<Rightarrow> Claim \<Rightarrow> bytes32" where
  "leaf d c = keccak_packed d (index c) (payee c) (amount c)"

definition proof_verifies :: "'tok deployment \<Rightarrow> Claim \<Rightarrow> bool" where
  "proof_verifies d c = verify d (merkleProof c) (merkleRoot d) (leaf d c)"

subsection \<open>A deployment to run the contract on\<close>

text \<open>
  An instance of the parameters for concrete runs: a token that keeps one balance per
  address and whose transfer from the contract's address reverts when the balance is too
  small, and a proof check that folds the proof into the leaf, ordering each pair as
  OpenZeppelin's \<open>MerkleProof\<close> does, with addition standing in for the hash.
\<close>

definition this_address :: address where
  "this_address = 1000"

definition ledger_transfer :: "(address \<Rightarrow> uint256) \<Rightarrow> address \<Rightarrow> uint256 \<Rightarrow> (address \<Rightarrow> uint256) option" where
  "ledger_transfer bal to amt =
     (if bal this_address < amt then None
      else let bal1 = bal(this_address := bal this_address - amt)
           in Some (bal1(to := bal1 to + amt)))"

definition sum_proof :: "bytes32 list \<Rightarrow> bytes32 \<Rightarrow> bytes32 \<Rightarrow> bool" where
  "sum_proof prf root node =
     (foldl (\<lambda>computed el. if computed \<le> el then computed + 2 * el else el + 2 * computed)
        node prf = root)"

definition ledger_deployment :: "(address \<Rightarrow> uint256) deployment" where
  "ledger_deployment =
     \<lparr>merkleRoot = 400,
      keccak_packed = (\<lambda>i p a. i + ucast p + a),
      verify = sum_proof,
      safeTransfer = ledger_transfer\<rparr>"

definition funded :: "uint256 \<Rightarrow> (address \<Rightarrow> uint256) chain" where
  "funded n = \<lparr>claimedBitMap = (\<lambda>_. 0), token = (\<lambda>_. 0)(this_address := n), logs = []\<rparr>"

text \<open>Two claim records that verify against root 400.\<close>

definition claim_a :: Claim where
  "claim_a = \<lparr>index = 3, payee = 7, amount = 8, merkleProof = [191]\<rparr>"

definition claim_b :: Claim where
  "claim_b = \<lparr>index = 300, payee = 9, amount = 91, merkleProof = []\<rparr>"

text \<open>The state after \<open>claim_a\<close> was paid from a contract holding 200 tokens.\<close>

definition after_a :: "(address \<Rightarrow> uint256) chain" where
  "after_a =
     \<lparr>claimedBitMap = (\<lambda>_. 0)(0 := 8), token = (\<lambda>_. 0)(this_address := 192, 7 := 8),
      logs = [Claimed 3 7 8]\<rparr>"

section \<open>The grant synchronizer\<close>

text \<open>
  The data layer of the frontend: \<open>getAllGrants\<close>, the comparison inside
  \<open>grantListener\<close>, and \<open>getApprovedGrants\<close>. Field names that clash with those of
  \<open>Claim\<close> or with HOL's \<open>id\<close> carry a prefix.
\<close>

subsection \<open>MetaPtr and BigNumberish\<close>

text \<open>
  A \<open>MetaPtr\<close> has a \<open>protocol\<close>, which the code wraps in \<open>BigNumber.from\<close>,
  and a \<open>pointer\<close>. A protocol is a JavaScript number or a \<open>BigNumber\<close> object.
  Objects are compared by identity under \<open>===\<close>, so an object is an address into a
  store that holds its value.
\<close>

datatype BigNumberish = JSNumber int | BigNumberObj nat

type_synonym bn_store = "nat \<Rightarrow> int"

record MetaPtr =
  protocol :: BigNumberish
  pointer :: string

text \<open>
  \<open>BigNumber.from\<close>: a number outside the safe range throws (\<open>None\<close>), an object
  is taken as it is. The result is the value held.
\<close>

definition MAX_SAFE :: int where
  "MAX_SAFE = 2 ^ 53 - 1"

fun BigNumber_from :: "bn_store \<Rightarrow> BigNumberish \<Rightarrow> int option" where
  "BigNumber_from h (JSNumber n) = (if n \<ge> MAX_SAFE \<or> n \<le> - MAX_SAFE then None else Some n)"
| "BigNumber_from h (BigNumberObj r) = Some (h r)"

text \<open>\<open>x === y\<close>: numbers by value, objects by identity, never across the two.\<close>

fun strict_eq :: "BigNumberish \<Rightarrow> BigNumberish \<Rightarrow> bool" where
  "strict_eq (JSNumber a) (JSNumber b) = (a = b)"
| "strict_eq (BigNumberObj r) (BigNumberObj r') = (r = r')"
| "strict_eq _ _ = False"

text \<open>
  \<open>areMetaPtrsEqual\<close>. Both \<open>BigNumber.from\<close> calls run before the comparison, and
  either may throw (\<open>None\<close>). \<open>toString()\<close> gives the decimal numeral of the value,
  so the two strings are equal exactly when the values are.
\<close>

definition areMetaPtrsEqual :: "bn_store \<Rightarrow> MetaPtr \<Rightarrow> MetaPtr \<Rightarrow> bool option" where
  "areMetaPtrsEqual h x y =
     (case BigNumber_from h (protocol x) of
        None \<Rightarrow> None
      | Some a \<Rightarrow>
          (case BigNumber_from h (protocol y) of
             None \<Rightarrow> None
           | Some b \<Rightarrow> Some (a = b \<and> strict_eq (protocol x) (protocol y))))"

subsection \<open>Grants and the indexed object\<close>

text \<open>
  Grant ids, block numbers and timestamps are modelled by their values, as natural
  numbers; addresses and pointers are strings.
\<close>

record Grant =
  grant_id :: nat
  grant_owner :: string
  grant_payee :: string
  grant_metaPtr :: MetaPtr
  createdAt :: nat
  lastUpdated :: nat

record GrantSubgraph =
  sg_id :: nat
  sg_owner :: string
  sg_payee :: string
  sg_metaPtr :: MetaPtr
  createdAtTimestamp :: nat
  lastUpdatedTimestamp :: nat
  lastUpdatedBlockNumber :: nat

text \<open>The decoded arguments \<open>tx.args\<close> of a GrantCreated or GrantUpdated event.\<close>

record Event =
  args_id :: nat
  args_owner :: string
  args_payee :: string
  args_metaPtr :: MetaPtr
  args_time :: nat

text \<open>
  \<open>_lsGrants\<close> is a JavaScript object keyed by grant id. It is represented by its
  entries in the order in which JavaScript lists an object's own keys, which is the order
  of \<open>Object.values\<close>: first the keys that are array indices (integers below
  \<open>2 ^ 32 - 1\<close>) in ascending order, then the other keys in the order in which they
  were first assigned.
\<close>

type_synonym grants_obj = "(nat \<times> Grant) list"

definition array_index :: "nat \<Rightarrow> bool" where
  "array_index k = (k < 2 ^ 32 - 1)"

text \<open>
  \<open>obj_set\<close> is the assignment \<open>obj[k] = v\<close>, \<open>map_of\<close> the lookup. A key
  that is present keeps its place; a new array index goes before the first larger array
  index or other key; any other new key goes last.
\<close>

fun obj_set :: "nat \<Rightarrow> 'v \<Rightarrow> (nat \<times> 'v) list \<Rightarrow> (nat \<times> 'v) list" where
  "obj_set k v [] = [(k, v)]"
| "obj_set k v ((k', v') # xs) =
     (if k = k' then (k, v) # xs
      else if array_index k \<and> (\<not> array_index k' \<or> k < k') then (k, v) # (k', v') # xs
      else (k', v') # obj_set k v xs)"

definition obj_values :: "(nat \<times> 'v) list \<Rightarrow> 'v list" where
  "obj_values obj = map snd obj"

text \<open>
  \<open>BigNumber.from(id).toNumber()\<close> throws when the value needs more than 53 bits.
\<close>

definition toNumber :: "nat \<Rightarrow> nat option" where
  "toNumber n = (if n < 2 ^ 53 then Some n else None)"

subsection \<open>getAllGrants\<close>

text \<open>
  What the routine reads from outside: the constants \<open>START_BLOCK\<close> and
  \<open>SUBGRAPH_URL\<close>, the answers of the subgraph (\<open>recursiveGraphFetch\<close>) and of the
  RPC log scan (\<open>batchFilterCall\<close>), where \<open>None\<close> is a request that throws, and
  \<open>getAddress\<close>, which throws on a malformed address.
\<close>

record sync_env =
  START_BLOCK :: nat
  SUBGRAPH_URL :: "string option"
  recursiveGraphFetch :: "string \<Rightarrow> nat \<Rightarrow> GrantSubgraph list option"
  batchFilterCall :: "string \<Rightarrow> nat \<Rightarrow> nat \<Rightarrow> Event list option"
  getAddress :: "string \<Rightarrow> string option"

text \<open>
  The cache entry handed to the callback. \<open>LocalForageData?.blockNumber || 0\<close> and
  \<open>LocalForageData?.data?.grants || {}\<close> read a missing field as 0 and as the empty
  object, so the record holds those values for a missing field.
\<close>

record LocalForageData =
  blockNumber :: nat
  data_grants :: grants_obj

text \<open>The requests sent, in order.\<close>

datatype request = Subgraph_request string nat | Rpc_request string nat nat

datatype sync_error = Rpc_failed | Conversion_failed

record sync_result =
  lsGrants :: grants_obj
  returned :: "Grant list"
  saved :: bool
  requests :: "request list"

text \<open>A string setting is truthy when it is defined and not empty.\<close>

definition truthy :: "string option \<Rightarrow> bool" where
  "truthy u = (case u of None \<Rightarrow> False | Some s \<Rightarrow> s \<noteq> [])"

text \<open>
  The body of \<open>grants.forEach\<close> for one subgraph record: \<open>toNumber\<close>, then the two
  \<open>getAddress\<close> calls, any of which may throw.
\<close>

definition grant_of_subgraph :: "sync_env \<Rightarrow> GrantSubgraph \<Rightarrow> Grant option" where
  "grant_of_subgraph env g =
     (case toNumber (sg_id g) of
        None \<Rightarrow> None
      | Some grantId \<Rightarrow>
          (case getAddress env (sg_owner g) of
             None \<Rightarrow> None
           | Some ow \<Rightarrow>
               (case getAddress env (sg_payee g) of
                  None \<Rightarrow> None
                | Some pa \<Rightarrow>
                    Some \<lparr>grant_id = grantId, grant_owner = ow, grant_payee = pa,
                          grant_metaPtr = sg_metaPtr g,
                          createdAt = createdAtTimestamp g,
                          lastUpdated = lastUpdatedTimestamp g\<rparr>)))"

text \<open>
  \<open>grants.forEach\<close> over the subgraph's answer. A throw stops the loop and keeps the
  assignments made so far; the flag tells whether the loop ran to its end.
\<close>

fun subgraph_forEach :: "sync_env \<Rightarrow> GrantSubgraph list \<Rightarrow> grants_obj \<Rightarrow> grants_obj \<times> bool" where
  "subgraph_forEach env [] obj = (obj, True)"
| "subgraph_forEach env (g # gs) obj =
     (case grant_of_subgraph env g of
        None \<Rightarrow> (obj, False)
      | Some grant \<Rightarrow> subgraph_forEach env gs (obj_set (grant_id grant) grant obj))"

text \<open>
  The callback of \<open>.map\<close> for one event. \<open>createdAt\<close> reads \<open>_lsGrants\<close> as it is
  while \<open>.map\<close> runs, which is before \<open>.forEach\<close> assigns any event.
\<close>

definition grant_of_event :: "sync_env \<Rightarrow> grants_obj \<Rightarrow> Event \<Rightarrow> Grant option" where
  "grant_of_event env obj tx =
     (case toNumber (args_id tx) of
        None \<Rightarrow> None
      | Some grantId \<Rightarrow>
          (case getAddress env (args_owner tx) of
             None \<Rightarrow> None
           | Some ow \<Rightarrow>
               (case getAddress env (args_payee tx) of
                  None \<Rightarrow> None
                | Some pa \<Rightarrow>
                    Some \<lparr>grant_id = grantId, grant_owner = ow, grant_payee = pa,
                          grant_metaPtr = args_metaPtr tx,
                          createdAt = (case map_of obj grantId of
                                         Some cached \<Rightarrow> createdAt cached
                                       | None \<Rightarrow> args_time tx),
                          lastUpdated = args_time tx\<rparr>)))"

fun map_events :: "sync_env \<Rightarrow> grants_obj \<Rightarrow> Event list \<Rightarrow> Grant list option" where
  "map_events env obj [] = Some []"
| "map_events env obj (tx # txs) =
     (case grant_of_event env obj tx of
        None \<Rightarrow> None
      | Some grant \<Rightarrow>
          (case map_events env obj txs of
             None \<Rightarrow> None
           | Some grants \<Rightarrow> Some (grant # grants)))"

text \<open>\<open>.forEach((grant) => { _lsGrants[grant.id] = grant })\<close>.\<close>

fun assign_forEach :: "Grant list \<Rightarrow> grants_obj \<Rightarrow> grants_obj" where
  "assign_forEach [] obj = obj"
| "assign_forEach (grant # grants) obj = assign_forEach grants (obj_set (grant_id grant) grant obj)"

text \<open>
  The subgraph step, taken when \<open>SUBGRAPH_URL\<close> is defined and not empty: the new
  \<open>_lsGrants\<close>, the new \<open>fromBlock\<close> and the requests sent. Only a loop that ran
  to its end moves \<open>fromBlock\<close> to \<open>latestBlockNumber\<close>.
\<close>

definition subgraph_step ::
  "sync_env \<Rightarrow> nat \<Rightarrow> nat \<Rightarrow> grants_obj \<Rightarrow> grants_obj \<times> nat \<times> request list" where
  "subgraph_step env fromBlock latestBlockNumber obj =
     (case SUBGRAPH_URL env of
        None \<Rightarrow> (obj, fromBlock, [])
      | Some url \<Rightarrow>
          if url = [] then (obj, fromBlock, [])
          else
            (case recursiveGraphFetch env url fromBlock of
               None \<Rightarrow> (obj, fromBlock, [Subgraph_request url fromBlock])
             | Some grants \<Rightarrow>
                 (case subgraph_forEach env grants obj of
                    (obj', True) \<Rightarrow> (obj', latestBlockNumber, [Subgraph_request url fromBlock])
                  | (obj', False) \<Rightarrow> (obj', fromBlock, [Subgraph_request url fromBlock]))))"

text \<open>
  The RPC step, guarded by \<open>fromBlock < latestBlockNumber\<close>. \<open>Promise.all\<close> sends
  both scans; if either throws, or \<open>.map\<close> throws, so does \<open>getAllGrants\<close>.
\<close>

definition rpc_step ::
  "sync_env \<Rightarrow> nat \<Rightarrow> nat \<Rightarrow> grants_obj \<Rightarrow> sync_error + grants_obj \<times> request list" where
  "rpc_step env fromBlock latestBlockNumber obj =
     (if fromBlock < latestBlockNumber then
        (case batchFilterCall env ''GrantCreated'' fromBlock latestBlockNumber of
           None \<Rightarrow> Inl Rpc_failed
         | Some newGrants \<Rightarrow>
             (case batchFilterCall env ''GrantUpdated'' fromBlock latestBlockNumber of
                None \<Rightarrow> Inl Rpc_failed
              | Some updatedGrants \<Rightarrow>
                  (case map_events env obj (newGrants @ updatedGrants) of
                     None \<Rightarrow> Inl Conversion_failed
                   | Some grants \<Rightarrow>
                       Inr (assign_forEach grants obj,
                            [Rpc_request ''GrantCreated'' fromBlock latestBlockNumber,
                             Rpc_request ''GrantUpdated'' fromBlock latestBlockNumber]))))
      else Inr (obj, []))"

text \<open>
  \<open>syncStorage\<close> is imported from \<open>src/utils/data/utils\<close>: it calls the
  callback with the cache entry and a \<open>save\<close> function. The locals of the callback that
  \<open>getAllGrants\<close> hands to it:
  \<open>_lsBlockNumber\<close>, \<open>_lsGrants\<close>, the test that starts a refresh and the first
  \<open>fromBlock\<close>. The cache entry is \<open>None\<close> when there is none.
\<close>

definition ls_blockNumber :: "LocalForageData option \<Rightarrow> nat" where
  "ls_blockNumber cache = (case cache of None \<Rightarrow> 0 | Some c \<Rightarrow> blockNumber c)"

definition ls_grants :: "LocalForageData option \<Rightarrow> grants_obj" where
  "ls_grants cache = (case cache of None \<Rightarrow> [] | Some c \<Rightarrow> data_grants c)"

definition refreshes :: "bool \<Rightarrow> LocalForageData option \<Rightarrow> nat \<Rightarrow> bool" where
  "refreshes forceRefresh cache latestBlockNumber =
     (forceRefresh \<or> cache = None \<or> (cache \<noteq> None \<and> ls_blockNumber cache < latestBlockNumber))"

definition first_fromBlock :: "sync_env \<Rightarrow> LocalForageData option \<Rightarrow> nat" where
  "first_fromBlock env cache =
     (if ls_blockNumber cache \<noteq> 0 then ls_blockNumber cache + 1 else START_BLOCK env)"

text \<open>
  The tail of the callback: the returned array, and the save when the array is not empty
  and a \<open>save\<close> function was passed.
\<close>

definition finish :: "bool \<Rightarrow> grants_obj \<Rightarrow> request list \<Rightarrow> sync_result" where
  "finish save obj reqs =
     \<lparr>lsGrants = obj, returned = obj_values obj,
      saved = (obj_values obj \<noteq> [] \<and> save), requests = reqs\<rparr>"

definition getAllGrants ::
  "sync_env \<Rightarrow> nat \<Rightarrow> bool \<Rightarrow> LocalForageData option \<Rightarrow> bool \<Rightarrow> sync_error + sync_result" where
  "getAllGrants env latestBlockNumber forceRefresh cache save =
     (if refreshes forceRefresh cache latestBlockNumber then
        (case subgraph_step env (first_fromBlock env cache) latestBlockNumber (ls_grants cache) of
           (obj1, fromBlock1, reqs1) \<Rightarrow>
             (case rpc_step env fromBlock1 latestBlockNumber obj1 of
                Inl e \<Rightarrow> Inl e
              | Inr (obj2, reqs2) \<Rightarrow> Inr (finish save obj2 (reqs1 @ reqs2))))
      else Inr (finish save (ls_grants cache) []))"

text \<open>
  The condition of the \<open>if\<close> at line 223 of the listener, which decides whether
  \<open>getMetadata(metaPtr, ...)\<close> is called at line 224: the grant is cached and
  \<open>areMetaPtrsEqual\<close> returns false. \<open>None\<close> is a throw. This is that one call
  only: further down (line 245) the listener calls \<open>fetchMetaPtrs\<close> with the pointers
  of all grants, the new one included, whatever this condition was.
\<close>

definition getMetadata_called :: "bn_store \<Rightarrow> grants_obj \<Rightarrow> nat \<Rightarrow> MetaPtr \<Rightarrow> bool option" where
  "getMetadata_called h obj grantId metaPtr =
     (case map_of obj grantId of
        None \<Rightarrow> Some False
      | Some cached \<Rightarrow>
          (case areMetaPtrsEqual h (grant_metaPtr cached) metaPtr of
             None \<Rightarrow> None
           | Some eq \<Rightarrow> Some (\<not> eq)))"

subsection \<open>getApprovedGrants\<close>

text \<open>
  A whitelist maps a chain id to the list of approved grant ids; a chain id without an
  entry reads \<open>undefined\<close>. \<open>fetch(url).then((res) => res.json())\<close> throws, or
  gives a falsy value (\<open>Fetch_json None\<close>), or gives a whitelist.
\<close>

type_synonym Whitelist = "nat \<Rightarrow> nat list option"

datatype fetched = Fetch_throws | Fetch_json "Whitelist option"

datatype approve_error = TypeError | Error string

record approve_env =
  whitelistUrl :: "string option"
  DGRANTS_CHAIN_ID :: nat

record approved =
  grants :: "Grant list"
  approvedGrantsPk :: "nat list option"

text \<open>
  \<open>filterWhiteListed\<close>: the callback of \<open>grants.filter\<close> reads
  \<open>whiteList[DGRANTS_CHAIN_ID].includes\<close>, a TypeError when the entry is undefined
  and there is a grant to test.
\<close>

definition filterWhiteListed :: "approve_env \<Rightarrow> Grant list \<Rightarrow> Whitelist \<Rightarrow> approve_error + Grant list" where
  "filterWhiteListed env gs whiteList =
     (if gs = [] then Inr []
      else (case whiteList (DGRANTS_CHAIN_ID env) of
              None \<Rightarrow> Inl TypeError
            | Some ids \<Rightarrow> Inr (filter (\<lambda>grant. grant_id grant \<in> set ids) gs)))"

text \<open>\<open>fallback\<close>, reading the storage key \<open>whitelist\<close>.\<close>

definition fallback :: "approve_env \<Rightarrow> Grant list \<Rightarrow> Whitelist option \<Rightarrow> approve_error + approved" where
  "fallback env gs storage =
     (case storage of
        Some cachedWhiteList \<Rightarrow>
          (case filterWhiteListed env gs cachedWhiteList of
             Inl e \<Rightarrow> Inl e
           | Inr gs' \<Rightarrow>
               Inr \<lparr>grants = gs', approvedGrantsPk = cachedWhiteList (DGRANTS_CHAIN_ID env)\<rparr>)
      | None \<Rightarrow> Inl (Error ''Failed to load whitelist and couldn't find a cached''))"

text \<open>
  \<open>getApprovedGrants\<close>, given what the fetch gives and the stored whitelist; the
  result comes with the storage after the call. A throw inside \<open>try\<close>, also one of
  \<open>fallback\<close> itself, runs \<open>fallback\<close> from the \<open>catch\<close>. The storage
  calls \<open>getStorageKey\<close> and \<open>setStorageKey\<close> are taken not to throw.
\<close>

definition getApprovedGrants ::
  "approve_env \<Rightarrow> fetched \<Rightarrow> Whitelist option \<Rightarrow> Grant list \<Rightarrow> (approve_error + approved) \<times> Whitelist option" where
  "getApprovedGrants env response storage gs =
     (if truthy (whitelistUrl env) then
        (case response of
           Fetch_throws \<Rightarrow> (fallback env gs storage, storage)
         | Fetch_json None \<Rightarrow>
             (case fallback env gs storage of
                Inl e \<Rightarrow> (fallback env gs storage, storage)
              | Inr r \<Rightarrow> (Inr r, storage))
         | Fetch_json (Some json) \<Rightarrow>
             (case filterWhiteListed env gs json of
                Inl e \<Rightarrow> (fallback env gs (Some json), Some json)
              | Inr gs' \<Rightarrow>
                  (Inr \<lparr>grants = gs', approvedGrantsPk = json (DGRANTS_CHAIN_ID env)\<rparr>, Some json)))
      else (Inr \<lparr>grants = gs, approvedGrantsPk = Some []\<rparr>, storage))"

subsection \<open>The records merged by a call\<close>





subsection \<open>The record written last\<close>




subsection \<open>Settings and answers to run the synchronizer on\<close>

definition plain_ptr :: MetaPtr where
  "plain_ptr = \<lparr>protocol = JSNumber 1, pointer = ''Qm1''\<rparr>"

text \<open>A pointer whose protocol is the \<open>BigNumber\<close> object at address \<open>r\<close>.\<close>

definition object_ptr :: "nat \<Rightarrow> MetaPtr" where
  "object_ptr r = \<lparr>protocol = BigNumberObj r, pointer = ''Qm1''\<rparr>"

definition event_at :: "nat \<Rightarrow> nat \<Rightarrow> Event" where
  "event_at i t =
     \<lparr>args_id = i, args_owner = ''0xA'', args_payee = ''0xB'', args_metaPtr = plain_ptr,
      args_time = t\<rparr>"

definition grant_at :: "nat \<Rightarrow> nat \<Rightarrow> nat \<Rightarrow> Grant" where
  "grant_at i c t =
     \<lparr>grant_id = i, grant_owner = ''0xA'', grant_payee = ''0xB'', grant_metaPtr = plain_ptr,
      createdAt = c, lastUpdated = t\<rparr>"



text \<open>
  A subgraph whose request throws, and a chain on which grant 7 was created in block 100.
\<close>

definition failing_subgraph_env :: sync_env where
  "failing_subgraph_env =
     \<lparr>START_BLOCK = 0, SUBGRAPH_URL = Some ''https://subgraph'',
      recursiveGraphFetch = (\<lambda>url fromBlock. None),
      batchFilterCall = (\<lambda>filter fromBlock toBlock.
        if filter = ''GrantCreated'' \<and> fromBlock \<le> 100 \<and> 100 \<le> toBlock
        then Some [event_at 7 1000] else Some []),
      getAddress = Some\<rparr>"



definition cache_at :: "nat \<Rightarrow> grants_obj \<Rightarrow> LocalForageData" where
  "cache_at b obj = \<lparr>blockNumber = b, data_grants = obj\<rparr>"

definition chain_env :: approve_env where
  "chain_env = \<lparr>whitelistUrl = Some ''https://whitelist'', DGRANTS_CHAIN_ID = 1\<rparr>"

definition whitelist_of :: "nat list \<Rightarrow> Whitelist" where
  "whitelist_of ids = (\<lambda>chain. if chain = 1 then Some ids else None)"

text \<open>
  A JSON object without an entry for any chain id, such as the body of an HTTP error
  answer, which \<open>res.json()\<close> parses like any other.
\<close>

definition error_body :: Whitelist where
  "error_body = (\<lambda>chain. None)"

subsection \<open>Bit-level facts\<close>

lemma and_mask_eq_iff_bit:
  fixes w :: "'a::len word"
  assumes "n < LENGTH('a)"
  shows "(w AND push_bit n 1 = push_bit n 1) = bit w n"
proof
  assume eq: "w AND push_bit n 1 = push_bit n 1"
  have "bit (push_bit n 1 :: 'a word) n"
    using assms by (simp add: bit_exp_iff)
  with eq have "bit (w AND push_bit n 1) n" by simp
  then show "bit w n" by (simp add: bit_and_iff)
next
  assume b: "bit w n"
  show "w AND push_bit n 1 = push_bit n 1"
  proof (rule bit_eqI)
    fix k
    show "bit (w AND push_bit n 1) k = bit (push_bit n (1 :: 'a word)) k"
      using b by (auto simp add: bit_and_iff bit_exp_iff)
  qed
qed

lemma unat_mod_256_less: "unat ((i :: uint256) mod 256) < 256"
proof -
  have "unat (i mod 256) = unat i mod 256"
    by (simp add: unat_mod_distrib)
  then show ?thesis by simp
qed

lemma hasClaimed_bit:
  "hasClaimed s i = bit (claimedBitMap s (i div 256)) (unat (i mod 256))"
proof -
  have "unat (i mod 256) < LENGTH(256)"
    using unat_mod_256_less [of i] by simp
  then show ?thesis
    unfolding hasClaimed_def Let_def by (rule and_mask_eq_iff_bit)
qed

lemma claimedBitMap_setClaimed:
  "claimedBitMap (setClaimed i s) =
     (claimedBitMap s)(i div 256 := claimedBitMap s (i div 256) OR push_bit (unat (i mod 256)) 1)"
  by (simp add: setClaimed_def Let_def)

lemma hasClaimed_setClaimed_same: "hasClaimed (setClaimed i s) i"
proof -
  have "unat (i mod 256) < LENGTH(256)"
    using unat_mod_256_less [of i] by simp
  then show ?thesis
    by (simp add: hasClaimed_bit claimedBitMap_setClaimed bit_or_iff bit_exp_iff)
qed

lemma word_div_mod_256_inject:
  fixes i j :: uint256
  assumes "i div 256 = j div 256" and "i mod 256 = j mod 256"
  shows "i = j"
proof -
  have "i = i div 256 * 256 + i mod 256"
    by (simp only: word_mod_div_equality)
  also have "\<dots> = j div 256 * 256 + j mod 256"
    using assms by simp
  also have "\<dots> = j"
    by (simp only: word_mod_div_equality)
  finally show ?thesis .
qed

lemma hasClaimed_setClaimed_other:
  assumes "i \<noteq> j"
  shows "hasClaimed (setClaimed i s) j = hasClaimed s j"
proof (cases "i div 256 = j div 256")
  case False
  then show ?thesis
    by (simp add: hasClaimed_bit claimedBitMap_setClaimed)
next
  case True
  with assms have "i mod 256 \<noteq> j mod 256"
    using word_div_mod_256_inject by blast
  then have ne: "unat (i mod 256) \<noteq> unat (j mod 256)"
    by (simp add: word_unat_eq_iff)
  have "unat (j mod 256) < LENGTH(256)"
    using unat_mod_256_less [of j] by simp
  with ne True show ?thesis
    by (simp add: hasClaimed_bit claimedBitMap_setClaimed bit_or_iff bit_exp_iff)
qed

lemma hasClaimed_setClaimed_mono: "hasClaimed s j \<Longrightarrow> hasClaimed (setClaimed i s) j"
  by (cases "i = j") (simp_all add: hasClaimed_setClaimed_same hasClaimed_setClaimed_other)


subsection \<open>The loop as a recursion over the array\<close>

lemma batchClaim_loop_drop:
  "batchClaim_loop d cs i s = claims_in_order d (drop i cs) s"
proof (induction d cs i s rule: batchClaim_loop.induct)
  case (1 d cs i s)
  show ?case
  proof (cases "i < length cs")
    case False
    then show ?thesis by (simp add: batchClaim_loop.simps [of d cs i s])
  next
    case True
    then have unfold: "drop i cs = cs ! i # drop (i + 1) cs"
      by (simp add: Cons_nth_drop_Suc)
    show ?thesis
    proof (cases "claim d (cs ! i) s")
      case (Inl e)
      with True unfold show ?thesis
        by (simp add: batchClaim_loop.simps [of d cs i s])
    next
      case (Inr s')
      with True have "batchClaim_loop d cs i s = batchClaim_loop d cs (i + 1) s'"
        by (simp add: batchClaim_loop.simps [of d cs i s])
      also have "\<dots> = claims_in_order d (drop (i + 1) cs) s'"
        using "1.IH" [OF True Inr] .
      finally show ?thesis
        using unfold Inr by simp
    qed
  qed
qed

lemma batchClaim_claims_in_order: "batchClaim d cs s = claims_in_order d cs s"
  by (simp add: batchClaim_def batchClaim_loop_drop)

lemma claims_in_order_append:
  "claims_in_order d (xs @ ys) s =
     (case claims_in_order d xs s of Inl e \<Rightarrow> Inl e | Inr s' \<Rightarrow> claims_in_order d ys s')"
  by (induction xs arbitrary: s) (simp_all split: sum.splits)

subsection \<open>What a successful claim changes\<close>

lemma claim_Inr_iff:
  "claim d c s = Inr s' \<longleftrightarrow>
     \<not> hasClaimed s (index c) \<and> proof_verifies d c \<and>
     (\<exists>tok. safeTransfer d (token s) (payee c) (amount c) = Some tok \<and>
        s' = (setClaimed (index c) s)
               \<lparr>token := tok, logs := logs s @ [Claimed (index c) (payee c) (amount c)]\<rparr>)"
  by (auto simp add: claim_def proof_verifies_def leaf_def setClaimed_def Let_def
      split: option.splits)

lemma hasClaimed_cong:
  "claimedBitMap s' = claimedBitMap s \<Longrightarrow> hasClaimed s' i = hasClaimed s i"
  by (simp add: hasClaimed_def)

lemma claim_Inr_hasClaimed:
  assumes "claim d c s = Inr s'"
  shows "hasClaimed s' j = (j = index c \<or> hasClaimed s j)"
proof -
  from assms have bm: "claimedBitMap s' = claimedBitMap (setClaimed (index c) s)"
    by (auto simp add: claim_Inr_iff)
  have "hasClaimed s' j = hasClaimed (setClaimed (index c) s) j"
    using bm by (rule hasClaimed_cong)
  also have "\<dots> = (j = index c \<or> hasClaimed s j)"
    using hasClaimed_setClaimed_same [of "index c" s]
      hasClaimed_setClaimed_other [of "index c" j s]
    by (cases "j = index c") auto
  finally show ?thesis .
qed

lemma claims_in_order_keeps_claimed:
  "claims_in_order d cs s = Inr s' \<Longrightarrow> hasClaimed s i \<Longrightarrow> hasClaimed s' i"
proof (induction cs arbitrary: s)
  case Nil
  then show ?case by simp
next
  case (Cons c cs)
  from Cons.prems(1) obtain s1 where c1: "claim d c s = Inr s1"
    and rest: "claims_in_order d cs s1 = Inr s'"
    by (auto split: sum.splits)
  from c1 Cons.prems(2) have "hasClaimed s1 i"
    by (simp add: claim_Inr_hasClaimed)
  with rest show ?case by (rule Cons.IH)
qed

lemma perform_keeps_claimed:
  "perform d x s = Inr s' \<Longrightarrow> hasClaimed s i \<Longrightarrow> hasClaimed s' i"
proof (cases x)
  case (Call_claim c)
  assume "perform d x s = Inr s'" and "hasClaimed s i"
  with Call_claim show ?thesis by (simp add: claim_Inr_hasClaimed)
next
  case (Call_batchClaim cs)
  assume "perform d x s = Inr s'" and "hasClaimed s i"
  with Call_batchClaim show ?thesis
    by (auto simp add: batchClaim_claims_in_order intro: claims_in_order_keeps_claimed)
qed

lemma transact_keeps_claimed:
  "hasClaimed s i \<Longrightarrow> hasClaimed (fst (transact (perform d x) s)) i"
  by (auto simp add: transact_def split: sum.splits intro: perform_keeps_claimed)

lemma claims_in_order_fails:
  assumes "c \<in> set cs" and "hasClaimed s (index c) \<or> \<not> proof_verifies d c"
  shows "\<exists>e. claims_in_order d cs s = Inl e"
  using assms
proof (induction cs arbitrary: s)
  case Nil
  then show ?case by simp
next
  case (Cons x xs)
  show ?case
  proof (cases "claim d x s")
    case (Inl e)
    then show ?thesis by simp
  next
    case (Inr s1)
    then have ok: "\<not> hasClaimed s (index x)" "proof_verifies d x"
      by (simp_all add: claim_Inr_iff)
    with Cons.prems have mem: "c \<in> set xs" by auto
    from Cons.prems(2) Inr have "hasClaimed s1 (index c) \<or> \<not> proof_verifies d c"
      by (auto simp add: claim_Inr_hasClaimed)
    with mem have "\<exists>e. claims_in_order d xs s1 = Inl e"
      by (rule Cons.IH)
    with Inr show ?thesis by simp
  qed
qed

lemma run_claims_in_order:
  "claims_in_order d cs s = Inr s' \<Longrightarrow> run d (map Call_claim cs) s = s'"
proof (induction cs arbitrary: s)
  case Nil
  then show ?case by simp
next
  case (Cons c cs)
  from Cons.prems obtain s1 where c1: "claim d c s = Inr s1"
    and rest: "claims_in_order d cs s1 = Inr s'"
    by (auto split: sum.splits)
  from c1 have "fst (transact (claim d c) s) = s1"
    by (simp add: transact_def)
  with Cons.IH [OF rest] show ?case by simp
qed

section \<open>Properties of the claim ledger\<close>

lemmas ledger_defs = ledger_deployment_def ledger_transfer_def sum_proof_def this_address_def
  funded_def claim_a_def claim_b_def

text \<open>
  C1 (as amended). \<open>claim\<close> succeeds exactly when the index is not yet marked
  claimed, the Merkle proof verifies the leaf \<open>keccak256(index, payee, amount)\<close>
  against \<open>merkleRoot\<close>, and the token's transfer of \<open>amount\<close> to
  \<open>payee\<close> does not revert. On success the index is marked claimed (and no other
  index changes), the token's state is the one the transfer returns, and
  \<open>Claimed(index, payee, amount)\<close> is appended to the log.
\<close>

theorem claim_succeeds_iff:
  "((\<exists>s'. claim d c s = Inr s') \<longleftrightarrow>
      \<not> hasClaimed s (index c) \<and>
      verify d (merkleProof c) (merkleRoot d) (keccak_packed d (index c) (payee c) (amount c)) \<and>
      safeTransfer d (token s) (payee c) (amount c) \<noteq> None) \<and>
   (\<forall>s'. claim d c s = Inr s' \<longrightarrow>
      hasClaimed s' (index c) \<and>
      (\<forall>j. j \<noteq> index c \<longrightarrow> hasClaimed s' j = hasClaimed s j) \<and>
      safeTransfer d (token s) (payee c) (amount c) = Some (token s') \<and>
      logs s' = logs s @ [Claimed (index c) (payee c) (amount c)])"
proof -
  have iff: "(\<exists>s'. claim d c s = Inr s') \<longleftrightarrow>
      \<not> hasClaimed s (index c) \<and>
      verify d (merkleProof c) (merkleRoot d) (keccak_packed d (index c) (payee c) (amount c)) \<and>
      safeTransfer d (token s) (payee c) (amount c) \<noteq> None"
    by (auto simp add: claim_Inr_iff proof_verifies_def leaf_def)
  have post: "hasClaimed s' (index c) \<and>
      (\<forall>j. j \<noteq> index c \<longrightarrow> hasClaimed s' j = hasClaimed s j) \<and>
      safeTransfer d (token s) (payee c) (amount c) = Some (token s') \<and>
      logs s' = logs s @ [Claimed (index c) (payee c) (amount c)]"
    if ok: "claim d c s = Inr s'" for s'
  proof -
    from ok obtain tok where t: "safeTransfer d (token s) (payee c) (amount c) = Some tok"
      and s': "s' = (setClaimed (index c) s)
                 \<lparr>token := tok, logs := logs s @ [Claimed (index c) (payee c) (amount c)]\<rparr>"
      by (auto simp add: claim_Inr_iff)
    from t s' have "safeTransfer d (token s) (payee c) (amount c) = Some (token s')"
      by simp
    moreover from s' have "logs s' = logs s @ [Claimed (index c) (payee c) (amount c)]"
      by simp
    ultimately show ?thesis
      using ok by (simp add: claim_Inr_hasClaimed)
  qed
  from iff post show ?thesis by blast
qed

theorem claim_succeeds_iff_witness:
  "\<not> hasClaimed (funded 50) (index claim_a) \<and>
   verify ledger_deployment (merkleProof claim_a) (merkleRoot ledger_deployment)
     (keccak_packed ledger_deployment (index claim_a) (payee claim_a) (amount claim_a)) \<and>
   safeTransfer ledger_deployment (token (funded 50)) (payee claim_a) (amount claim_a) \<noteq> None \<and>
   (\<exists>s'. claim ledger_deployment claim_a (funded 50) = Inr s' \<and>
      hasClaimed s' 3 \<and> hasClaimed s' 4 = hasClaimed (funded 50) 4 \<and>
      token s' 7 = 8 \<and> token s' this_address = 42 \<and> logs s' = [Claimed 3 7 8])"
proof -
  let ?d = ledger_deployment and ?s = "funded 50"
  have pre: "\<not> hasClaimed ?s (index claim_a) \<and>
      verify ?d (merkleProof claim_a) (merkleRoot ?d)
        (keccak_packed ?d (index claim_a) (payee claim_a) (amount claim_a)) \<and>
      safeTransfer ?d (token ?s) (payee claim_a) (amount claim_a) \<noteq> None"
    by (simp add: ledger_defs hasClaimed_def)
  with claim_succeeds_iff [of ?d claim_a ?s]
  obtain s' where ok: "claim ?d claim_a ?s = Inr s'"
    by blast
  with claim_succeeds_iff [of ?d claim_a ?s]
  have post: "hasClaimed s' (index claim_a)"
    "\<forall>j. j \<noteq> index claim_a \<longrightarrow> hasClaimed s' j = hasClaimed ?s j"
    "safeTransfer ?d (token ?s) (payee claim_a) (amount claim_a) = Some (token s')"
    "logs s' = logs ?s @ [Claimed (index claim_a) (payee claim_a) (amount claim_a)]"
    by blast+
  from post(1) have p1: "hasClaimed s' 3" by (simp add: claim_a_def)
  from post(2) have p2: "hasClaimed s' 4 = hasClaimed ?s 4" by (simp add: claim_a_def)
  from post(3) have "token s' = (\<lambda>_. 0)(this_address := 42, 7 := 8)"
    by (simp add: ledger_defs Let_def)
  then have p3: "token s' 7 = 8 \<and> token s' this_address = 42"
    by (simp add: this_address_def)
  from post(4) have p4: "logs s' = [Claimed 3 7 8]" by (simp add: ledger_defs)
  from pre ok p1 p2 p3 p4 show ?thesis by blast
qed

text \<open>
  C1 as stated fails: with no tokens held by the contract, an unclaimed index with a
  verifying proof still reverts, because \<open>safeTransfer\<close> does.
\<close>

theorem claim_unfunded_counterexample:
  "\<not> hasClaimed (funded 0) (index claim_a) \<and>
   verify ledger_deployment (merkleProof claim_a) (merkleRoot ledger_deployment)
     (keccak_packed ledger_deployment (index claim_a) (payee claim_a) (amount claim_a)) \<and>
   claim ledger_deployment claim_a (funded 0) = Inl Transfer_failed"
  by (simp add: ledger_defs hasClaimed_def claim_def setClaimed_def)

text \<open>
  C2. The claimed state of every index is monotonic: once \<open>hasClaimed i\<close> holds,
  it holds after any sequence of \<open>claim\<close> and \<open>batchClaim\<close> transactions,
  whether they succeed or revert.
\<close>

theorem claimed_is_monotonic:
  "hasClaimed s i \<Longrightarrow> hasClaimed (run d calls s) i"
proof (induction calls arbitrary: s)
  case Nil
  then show ?case by simp
next
  case (Cons x xs)
  from Cons.prems have "hasClaimed (fst (transact (perform d x) s)) i"
    by (rule transact_keeps_claimed)
  then have "hasClaimed (run d xs (fst (transact (perform d x) s))) i"
    by (rule Cons.IH)
  then show ?case by simp
qed

lemma claim_a_funded:
  "claim ledger_deployment claim_a (funded 200) =
     Inr \<lparr>claimedBitMap = (\<lambda>_. 0)(0 := 8), token = (\<lambda>_. 0)(this_address := 192, 7 := 8),
          logs = [Claimed 3 7 8]\<rparr>"
  by (simp add: ledger_defs hasClaimed_def claim_def setClaimed_def Let_def)

lemma hasClaimed_after_a: "hasClaimed after_a 3"
  by (simp add: after_a_def hasClaimed_def)

theorem claimed_is_monotonic_witness:
  "hasClaimed after_a 3 \<and>
   hasClaimed (run ledger_deployment [Call_batchClaim [claim_b, claim_a], Call_claim claim_b] after_a) 3"
  using claimed_is_monotonic [OF hasClaimed_after_a, of ledger_deployment
      "[Call_batchClaim [claim_b, claim_a], Call_claim claim_b]"]
    hasClaimed_after_a
  by simp

text \<open>
  C3. A claim record whose index is already claimed reverts with
  "MerkleGrantRoundPayout: Funds already claimed", and the transaction leaves the bitmap,
  the token balances and the log as they were.
\<close>

theorem claim_twice_reverts:
  "hasClaimed s (index c) \<Longrightarrow>
     claim d c s = Inl (Require ''MerkleGrantRoundPayout: Funds already claimed'') \<and>
     transact (claim d c) s = (s, Some (Require ''MerkleGrantRoundPayout: Funds already claimed''))"
  by (simp add: claim_def transact_def)

lemma hasClaimed_after_a_index: "hasClaimed after_a (index claim_a)"
  by (simp add: after_a_def hasClaimed_def claim_a_def)

theorem claim_twice_reverts_witness:
  "hasClaimed after_a (index claim_a) \<and>
   claim ledger_deployment claim_a after_a =
     Inl (Require ''MerkleGrantRoundPayout: Funds already claimed'') \<and>
   transact (claim ledger_deployment claim_a) after_a =
     (after_a, Some (Require ''MerkleGrantRoundPayout: Funds already claimed''))"
  using claim_twice_reverts [OF hasClaimed_after_a_index, of ledger_deployment]
    hasClaimed_after_a_index
  by simp

text \<open>
  C7. The bitmap is a packed boolean array: after \<open>_setClaimed(i)\<close> the query
  \<open>hasClaimed(i)\<close> is true, \<open>hasClaimed(j)\<close> is unchanged for every other
  index \<open>j\<close>, and index \<open>i\<close> is bit \<open>i mod 256\<close> (a position below 256) of
  word \<open>i div 256\<close>.
\<close>

theorem bitmap_is_packed:
  "hasClaimed (setClaimed i s) i \<and>
   (\<forall>j. j \<noteq> i \<longrightarrow> hasClaimed (setClaimed i s) j = hasClaimed s j) \<and>
   hasClaimed s i = bit (claimedBitMap s (i div 256)) (unat (i mod 256)) \<and>
   unat (i mod 256) < 256"
proof (intro conjI allI impI)
  show "hasClaimed (setClaimed i s) i"
    by (rule hasClaimed_setClaimed_same)
  show "hasClaimed (setClaimed i s) j = hasClaimed s j" if "j \<noteq> i" for j
    using that by (simp add: hasClaimed_setClaimed_other)
  show "hasClaimed s i = bit (claimedBitMap s (i div 256)) (unat (i mod 256))"
    by (rule hasClaimed_bit)
  show "unat (i mod 256) < 256"
    by (rule unat_mod_256_less)
qed

theorem bitmap_is_packed_witness:
  "(259 :: uint256) \<noteq> 3 \<and> hasClaimed (setClaimed 3 after_a) 3 \<and>
   hasClaimed (setClaimed 3 (funded 0)) 259 = hasClaimed (funded 0 :: (address \<Rightarrow> uint256) chain) 259 \<and>
   \<not> hasClaimed (setClaimed 3 (funded 0) :: (address \<Rightarrow> uint256) chain) 259"
proof -
  have ne: "(259 :: uint256) \<noteq> 3" by simp
  have un: "\<not> hasClaimed (funded 0 :: (address \<Rightarrow> uint256) chain) 259"
    by (simp add: funded_def hasClaimed_def)
  from bitmap_is_packed [of 3 "funded 0 :: (address \<Rightarrow> uint256) chain"] ne
  have "hasClaimed (setClaimed 3 (funded 0)) 259 = hasClaimed (funded 0 :: (address \<Rightarrow> uint256) chain) 259"
    by blast
  with ne un bitmap_is_packed [of 3 after_a] show ?thesis by blast
qed

lemma all_less_Suc_shift:
  "(\<forall>k<Suc n. P k) \<longleftrightarrow> P 0 \<and> (\<forall>k<n. P (Suc k))"
proof
  assume "\<forall>k<Suc n. P k"
  then show "P 0 \<and> (\<forall>k<n. P (Suc k))" by simp
next
  assume h: "P 0 \<and> (\<forall>k<n. P (Suc k))"
  show "\<forall>k<Suc n. P k"
  proof (intro allI impI)
    fix k assume "k < Suc n"
    with h show "P k" by (cases k) simp_all
  qed
qed

lemma each_call_succeeds_Nil: "each_call_succeeds d [] s"
  by (simp add: each_call_succeeds_def)

lemma each_call_succeeds_Cons:
  "each_call_succeeds d (c # cs) s \<longleftrightarrow>
     (\<exists>s1. claim d c s = Inr s1 \<and> each_call_succeeds d cs s1)"
proof -
  have first: "snd (transact (claim d c) s) = None \<longleftrightarrow> (\<exists>s1. claim d c s = Inr s1)"
    by (cases "claim d c s") (simp_all add: transact_def)
  have rest: "run d (map Call_claim (take (Suc k) (c # cs))) s =
      run d (map Call_claim (take k cs)) (fst (transact (claim d c) s))" for k
    by simp
  have "each_call_succeeds d (c # cs) s \<longleftrightarrow>
      snd (transact (claim d c) s) = None \<and>
      each_call_succeeds d cs (fst (transact (claim d c) s))"
    unfolding each_call_succeeds_def length_Cons all_less_Suc_shift
    by (simp only: rest nth_Cons_0 nth_Cons_Suc take_0 list.map run.simps)
  also have "\<dots> \<longleftrightarrow> (\<exists>s1. claim d c s = Inr s1 \<and> each_call_succeeds d cs s1)"
    by (cases "claim d c s") (simp_all add: transact_def)
  finally show ?thesis .
qed

lemma claims_in_order_Inr_iff:
  "claims_in_order d cs s = Inr s' \<longleftrightarrow>
     each_call_succeeds d cs s \<and> s' = run d (map Call_claim cs) s"
proof (induction cs arbitrary: s)
  case Nil
  show ?case by (auto simp add: each_call_succeeds_Nil)
next
  case (Cons c cs)
  show ?case
  proof (cases "claim d c s")
    case (Inl e)
    then show ?thesis by (simp add: each_call_succeeds_Cons)
  next
    case (Inr s1)
    then have "fst (transact (claim d c) s) = s1"
      by (simp add: transact_def)
    with Inr Cons.IH [of s1] show ?thesis
      by (simp add: each_call_succeeds_Cons)
  qed
qed

text \<open>
  C8 (as amended). \<open>batchClaim\<close> is a loop over its argument. It succeeds exactly when
  every \<open>claim(claims[k])\<close>, called in array order after the calls before it, succeeds;
  and then it leaves the state, token balances and event log that those calls leave. When
  some call fails the batch reverts as a whole and changes nothing.
\<close>

theorem batchClaim_as_separate_calls:
  "(batchClaim d cs s = Inr s' \<longleftrightarrow>
      each_call_succeeds d cs s \<and> s' = run d (map Call_claim cs) s) \<and>
   (\<not> each_call_succeeds d cs s \<longrightarrow>
      (\<exists>e. batchClaim d cs s = Inl e \<and> transact (batchClaim d cs) s = (s, Some e)))"
proof (intro conjI impI)
  show "batchClaim d cs s = Inr s' \<longleftrightarrow>
      each_call_succeeds d cs s \<and> s' = run d (map Call_claim cs) s"
    by (simp only: batchClaim_claims_in_order claims_in_order_Inr_iff)
  show "\<exists>e. batchClaim d cs s = Inl e \<and> transact (batchClaim d cs) s = (s, Some e)"
    if "\<not> each_call_succeeds d cs s"
  proof (cases "batchClaim d cs s")
    case (Inl e)
    then show ?thesis by (simp add: transact_def)
  next
    case (Inr s2)
    then have "each_call_succeeds d cs s"
      by (simp only: batchClaim_claims_in_order claims_in_order_Inr_iff)
    with that show ?thesis by simp
  qed
qed

lemma batch_ab_funded:
  "claims_in_order ledger_deployment [claim_a, claim_b] (funded 200) =
     Inr \<lparr>claimedBitMap = (\<lambda>_. 0)(0 := 8, 1 := 17592186044416),
          token = (\<lambda>_. 0)(7 := 8, this_address := 101, 9 := 91),
          logs = [Claimed 3 7 8, Claimed 300 9 91]\<rparr>"
  by (simp add: ledger_defs hasClaimed_def claim_def setClaimed_def Let_def)

lemma claim_a_pays: "claim ledger_deployment claim_a (funded 200) = Inr after_a"
  by (simp add: claim_a_funded after_a_def)

lemma batch_a_funded: "batchClaim ledger_deployment [claim_a] (funded 200) = Inr after_a"
  by (simp add: batchClaim_claims_in_order claim_a_funded after_a_def)

lemma claim_a_again:
  "claim ledger_deployment claim_a after_a =
     Inl (Require ''MerkleGrantRoundPayout: Funds already claimed'')"
  by (simp add: claim_def hasClaimed_after_a_index)

lemma batch_aa_funded:
  "batchClaim ledger_deployment [claim_a, claim_a] (funded 200) =
     Inl (Require ''MerkleGrantRoundPayout: Funds already claimed'')"
  by (simp add: batchClaim_claims_in_order claim_a_pays claim_a_again)

lemma run_aa_funded:
  "run ledger_deployment (map Call_claim [claim_a, claim_a]) (funded 200) = after_a"
  by (simp add: transact_def claim_a_pays claim_a_again)

theorem batchClaim_as_separate_calls_witness:
  "batchClaim ledger_deployment [claim_a, claim_b] (funded 200) =
     Inr \<lparr>claimedBitMap = (\<lambda>_. 0)(0 := 8, 1 := 17592186044416),
          token = (\<lambda>_. 0)(7 := 8, this_address := 101, 9 := 91),
          logs = [Claimed 3 7 8, Claimed 300 9 91]\<rparr> \<and>
   each_call_succeeds ledger_deployment [claim_a, claim_b] (funded 200) \<and>
   run ledger_deployment (map Call_claim [claim_a, claim_b]) (funded 200) =
     \<lparr>claimedBitMap = (\<lambda>_. 0)(0 := 8, 1 := 17592186044416),
      token = (\<lambda>_. 0)(7 := 8, this_address := 101, 9 := 91),
      logs = [Claimed 3 7 8, Claimed 300 9 91]\<rparr> \<and>
   \<not> each_call_succeeds ledger_deployment [claim_a, claim_a] (funded 200) \<and>
   transact (batchClaim ledger_deployment [claim_a, claim_a]) (funded 200) =
     (funded 200, Some (Require ''MerkleGrantRoundPayout: Funds already claimed''))"
proof -
  let ?d = ledger_deployment
  let ?ab = "\<lparr>claimedBitMap = (\<lambda>_. 0)(0 := 8, 1 := 17592186044416),
      token = (\<lambda>_. 0)(7 := 8, this_address := 101, 9 := 91),
      logs = [Claimed 3 7 8, Claimed 300 9 91]\<rparr> :: (address \<Rightarrow> uint256) chain"
  have ab: "batchClaim ?d [claim_a, claim_b] (funded 200) = Inr ?ab"
    by (simp only: batchClaim_claims_in_order batch_ab_funded)
  with batchClaim_as_separate_calls [of ?d "[claim_a, claim_b]" "funded 200" ?ab]
  have each: "each_call_succeeds ?d [claim_a, claim_b] (funded 200)"
    and same: "?ab = run ?d (map Call_claim [claim_a, claim_b]) (funded 200)"
    by simp_all
  have "batchClaim ?d [claim_a, claim_a] (funded 200) \<noteq>
      Inr (run ?d (map Call_claim [claim_a, claim_a]) (funded 200))"
    by (simp only: batch_aa_funded) simp
  with batchClaim_as_separate_calls [of ?d "[claim_a, claim_a]" "funded 200"
      "run ?d (map Call_claim [claim_a, claim_a]) (funded 200)"]
  have fails: "\<not> each_call_succeeds ?d [claim_a, claim_a] (funded 200)"
    by simp
  with batchClaim_as_separate_calls [of ?d "[claim_a, claim_a]" "funded 200"]
  obtain e where "batchClaim ?d [claim_a, claim_a] (funded 200) = Inl e"
    and "transact (batchClaim ?d [claim_a, claim_a]) (funded 200) = (funded 200, Some e)"
    by blast
  with batch_aa_funded
  have reverted: "transact (batchClaim ?d [claim_a, claim_a]) (funded 200) =
      (funded 200, Some (Require ''MerkleGrantRoundPayout: Funds already claimed''))"
    by simp
  from ab each same [symmetric] fails reverted show ?thesis
    by (intro conjI)
qed

text \<open>
  C8 as stated fails for a batch with an element that fails: the batch
  \<open>[claim_a, claim_a]\<close> reverts and leaves the state as it was, with no event, while
  the same two claims called one after the other pay the first (one \<open>Claimed\<close> event)
  and revert only the second.
\<close>

theorem batchClaim_reverts_whole_counterexample:
  "transact (batchClaim ledger_deployment [claim_a, claim_a]) (funded 200) =
     (funded 200, Some (Require ''MerkleGrantRoundPayout: Funds already claimed'')) \<and>
   run ledger_deployment (map Call_claim [claim_a, claim_a]) (funded 200) = after_a \<and>
   logs (funded 200) = [] \<and>
   logs after_a = [Claimed 3 7 8]"
proof (intro conjI)
  show "transact (batchClaim ledger_deployment [claim_a, claim_a]) (funded 200) =
     (funded 200, Some (Require ''MerkleGrantRoundPayout: Funds already claimed''))"
    by (simp add: transact_def batch_aa_funded)
  show "run ledger_deployment (map Call_claim [claim_a, claim_a]) (funded 200) = after_a"
    by (rule run_aa_funded)
  show "logs (funded 200) = []"
    by (simp add: funded_def)
  show "logs after_a = [Claimed 3 7 8]"
    by (simp add: after_a_def)
qed

text \<open>
  C9. \<open>batchClaim\<close> is atomic. If some element's index is already claimed or its
  proof does not verify, the batch reverts; if an element fails when its turn comes, after
  the elements before it succeeded, the batch reverts with that element's reason; and a
  batch that reverts leaves the bitmap, the token balances and the log as they were
  before the call, also for the elements before the failing one.
\<close>

theorem batchClaim_atomic:
  "(c \<in> set cs \<and> (hasClaimed s (index c) \<or> \<not> proof_verifies d c) \<longrightarrow>
      (\<exists>e. batchClaim d cs s = Inl e)) \<and>
   (batchClaim d pre s = Inr s1 \<and> claim d c s1 = Inl e \<longrightarrow>
      batchClaim d (pre @ c # post) s = Inl e) \<and>
   (batchClaim d cs s = Inl e \<longrightarrow> transact (batchClaim d cs) s = (s, Some e))"
  by (auto simp add: batchClaim_claims_in_order claims_in_order_append transact_def
      dest: claims_in_order_fails)


theorem batchClaim_atomic_witness:
  "claim_a \<in> set [claim_b, claim_a] \<and> hasClaimed after_a (index claim_a) \<and>
   batchClaim ledger_deployment [claim_a] (funded 200) = Inr after_a \<and>
   claim ledger_deployment claim_a after_a =
     Inl (Require ''MerkleGrantRoundPayout: Funds already claimed'') \<and>
   batchClaim ledger_deployment ([claim_a] @ claim_a # [claim_b]) (funded 200) =
     Inl (Require ''MerkleGrantRoundPayout: Funds already claimed'') \<and>
   transact (batchClaim ledger_deployment ([claim_a] @ claim_a # [claim_b])) (funded 200) =
     (funded 200, Some (Require ''MerkleGrantRoundPayout: Funds already claimed'')) \<and>
   (\<exists>e. batchClaim ledger_deployment [claim_b, claim_a] after_a = Inl e \<and>
      transact (batchClaim ledger_deployment [claim_b, claim_a]) after_a = (after_a, Some e))"
proof -
  let ?d = ledger_deployment
  let ?msg = "Require ''MerkleGrantRoundPayout: Funds already claimed''"
  have mem: "claim_a \<in> set [claim_b, claim_a]" by simp
  note cl = hasClaimed_after_a_index
  from batchClaim_atomic [of claim_a "[claim_b, claim_a]" after_a ?d] mem cl
  obtain e where e: "batchClaim ?d [claim_b, claim_a] after_a = Inl e"
    by blast
  with batchClaim_atomic [of _ "[claim_b, claim_a]" after_a ?d _ _ e]
  have t1: "transact (batchClaim ?d [claim_b, claim_a]) after_a = (after_a, Some e)"
    by blast
  from batchClaim_atomic [of claim_a _ "funded 200" ?d "[claim_a]" after_a ?msg "[claim_b]"]
    batch_a_funded claim_a_again
  have b2: "batchClaim ?d ([claim_a] @ claim_a # [claim_b]) (funded 200) = Inl ?msg"
    by blast
  with batchClaim_atomic [of _ "[claim_a] @ claim_a # [claim_b]" "funded 200" ?d _ _ ?msg]
  have t2: "transact (batchClaim ?d ([claim_a] @ claim_a # [claim_b])) (funded 200) =
      (funded 200, Some ?msg)"
    by blast
  from mem cl batch_a_funded claim_a_again e t1 b2 t2 show ?thesis by blast
qed

section \<open>Properties of the grant synchronizer\<close>

lemma strict_eq_BigNumber_from:
  "strict_eq a b \<Longrightarrow> BigNumber_from h a = BigNumber_from h b"
  by (cases a; cases b) simp_all

lemma areMetaPtrsEqual_pointer:
  "areMetaPtrsEqual h (x\<lparr>pointer := p\<rparr>) (y\<lparr>pointer := q\<rparr>) = areMetaPtrsEqual h x y"
  by (simp add: areMetaPtrsEqual_def split: option.splits)

lemma areMetaPtrsEqual_same_protocol:
  assumes "strict_eq (protocol x) (protocol y)" and "BigNumber_from h (protocol x) \<noteq> None"
  shows "areMetaPtrsEqual h x y = Some True"
proof -
  from assms(2) obtain a where a: "BigNumber_from h (protocol x) = Some a"
    by auto
  with assms(1) have "BigNumber_from h (protocol y) = Some a"
    using strict_eq_BigNumber_from [of "protocol x" "protocol y" h] by simp
  with a assms(1) show ?thesis
    by (simp add: areMetaPtrsEqual_def)
qed

lemma areMetaPtrsEqual_True_iff:
  "areMetaPtrsEqual h x y = Some True \<longleftrightarrow>
     strict_eq (protocol x) (protocol y) \<and> BigNumber_from h (protocol x) \<noteq> None"
proof
  assume "areMetaPtrsEqual h x y = Some True"
  then show "strict_eq (protocol x) (protocol y) \<and> BigNumber_from h (protocol x) \<noteq> None"
    by (auto simp add: areMetaPtrsEqual_def split: option.splits)
next
  assume "strict_eq (protocol x) (protocol y) \<and> BigNumber_from h (protocol x) \<noteq> None"
  then show "areMetaPtrsEqual h x y = Some True"
    by (simp add: areMetaPtrsEqual_same_protocol)
qed

text \<open>
  What holds of \<open>areMetaPtrsEqual\<close>: its result does not change when either pointer
  does, and it returns true exactly when the two protocols are equal under \<open>===\<close>,
  that is the same number or the same \<open>BigNumber\<close> object (and \<open>BigNumber.from\<close>
  accepts them); then \<open>getMetadata\<close> is not called at line 224 for a cached grant.
\<close>

lemma areMetaPtrsEqual_strict_protocol:
  "areMetaPtrsEqual h (x\<lparr>pointer := p\<rparr>) (y\<lparr>pointer := q\<rparr>) = areMetaPtrsEqual h x y \<and>
   (areMetaPtrsEqual h x y = Some True \<longleftrightarrow>
      strict_eq (protocol x) (protocol y) \<and> BigNumber_from h (protocol x) \<noteq> None) \<and>
   (strict_eq (protocol x) (protocol y) \<and> BigNumber_from h (protocol x) \<noteq> None \<and>
    map_of obj grantId = Some cached \<and> grant_metaPtr cached = x \<longrightarrow>
      getMetadata_called h obj grantId y = Some False)"
proof (intro conjI impI)
  show "areMetaPtrsEqual h (x\<lparr>pointer := p\<rparr>) (y\<lparr>pointer := q\<rparr>) = areMetaPtrsEqual h x y"
    by (rule areMetaPtrsEqual_pointer)
  show "areMetaPtrsEqual h x y = Some True \<longleftrightarrow>
      strict_eq (protocol x) (protocol y) \<and> BigNumber_from h (protocol x) \<noteq> None"
    by (rule areMetaPtrsEqual_True_iff)
  show "getMetadata_called h obj grantId y = Some False"
    if "strict_eq (protocol x) (protocol y) \<and> BigNumber_from h (protocol x) \<noteq> None \<and>
      map_of obj grantId = Some cached \<and> grant_metaPtr cached = x"
    using that by (simp add: getMetadata_called_def areMetaPtrsEqual_same_protocol)
qed

lemma areMetaPtrsEqual_numbers:
  "areMetaPtrsEqual (\<lambda>_. 0) plain_ptr (plain_ptr\<lparr>pointer := ''Qm2''\<rparr>) = Some True \<and>
   getMetadata_called (\<lambda>_. 0) [(1, grant_at 1 5 5)] 1 (plain_ptr\<lparr>pointer := ''Qm2''\<rparr>) =
     Some False"
  by (simp add: plain_ptr_def areMetaPtrsEqual_def getMetadata_called_def grant_at_def
      MAX_SAFE_def)

text \<open>
  C10, at the input where the code departs from it. The cached pointer and the new one
  have the same pointer string, and their protocols are two distinct \<open>BigNumber\<close>
  objects that hold the same value 1. The first conjunct of \<open>areMetaPtrsEqual\<close>
  compares the values and holds; the second, \<open>x.protocol === y.protocol\<close>, compares
  the objects by identity and fails. So the function returns false although the two
  protocols are equal, and \<open>getMetadata\<close> is called at line 224 although nothing
  changed.
\<close>

theorem areMetaPtrsEqual_equal_objects:
  "BigNumber_from (\<lambda>_. 1) (protocol (object_ptr 1)) = Some 1 \<and>
   BigNumber_from (\<lambda>_. 1) (protocol (object_ptr 2)) = Some 1 \<and>
   pointer (object_ptr 1) = pointer (object_ptr 2) \<and>
   areMetaPtrsEqual (\<lambda>_. 1) (object_ptr 1) (object_ptr 2) = Some False \<and>
   getMetadata_called (\<lambda>_. 1)
     [(1, (grant_at 1 5 5)\<lparr>grant_metaPtr := object_ptr 1\<rparr>)] 1 (object_ptr 2) = Some True"
  by (simp add: object_ptr_def areMetaPtrsEqual_def getMetadata_called_def grant_at_def)

lemma fallback_Some:
  "whiteList (DGRANTS_CHAIN_ID env) = Some ids \<Longrightarrow>
     fallback env gs (Some whiteList) =
       Inr \<lparr>grants = filter (\<lambda>grant. grant_id grant \<in> set ids) gs, approvedGrantsPk = Some ids\<rparr>"
  by (simp add: fallback_def filterWhiteListed_def)

lemma fallback_None:
  "fallback env gs None = Inl (Error ''Failed to load whitelist and couldn't find a cached'')"
  by (simp add: fallback_def)

text \<open>
  With a whitelist URL configured: a fetched whitelist with an entry for the chain id is
  stored, and the grants are filtered to those whose id is in that entry; when the fetch
  throws (or gives nothing) the same filter runs on a stored whitelist that has the
  entry; and when the fetch fails and nothing is stored, the routine throws
  "Failed to load whitelist and couldn't find a cached".
\<close>

lemma getApprovedGrants_entry_present:
  assumes "truthy (whitelistUrl env)"
  shows
    "(json (DGRANTS_CHAIN_ID env) = Some ids \<longrightarrow>
        getApprovedGrants env (Fetch_json (Some json)) storage gs =
          (Inr \<lparr>grants = filter (\<lambda>grant. grant_id grant \<in> set ids) gs,
                approvedGrantsPk = Some ids\<rparr>, Some json)) \<and>
     ((response = Fetch_throws \<or> response = Fetch_json None) \<and>
      cachedWhiteList (DGRANTS_CHAIN_ID env) = Some ids \<longrightarrow>
        getApprovedGrants env response (Some cachedWhiteList) gs =
          (Inr \<lparr>grants = filter (\<lambda>grant. grant_id grant \<in> set ids) gs,
                approvedGrantsPk = Some ids\<rparr>, Some cachedWhiteList)) \<and>
     (response = Fetch_throws \<or> response = Fetch_json None \<longrightarrow>
        getApprovedGrants env response None gs =
          (Inl (Error ''Failed to load whitelist and couldn't find a cached''), None))"
  using assms
  by (auto simp add: getApprovedGrants_def fallback_Some fallback_None filterWhiteListed_def)


lemma getApprovedGrants_entry_present_example:
  "truthy (whitelistUrl chain_env) \<and>
   whitelist_of [1, 3] (DGRANTS_CHAIN_ID chain_env) = Some [1, 3] \<and>
   getApprovedGrants chain_env (Fetch_json (Some (whitelist_of [1, 3]))) None
       [grant_at 1 5 5, grant_at 2 6 6, grant_at 3 7 7] =
     (Inr \<lparr>grants = [grant_at 1 5 5, grant_at 3 7 7], approvedGrantsPk = Some [1, 3]\<rparr>,
      Some (whitelist_of [1, 3])) \<and>
   whitelist_of [2] (DGRANTS_CHAIN_ID chain_env) = Some [2] \<and>
   getApprovedGrants chain_env Fetch_throws (Some (whitelist_of [2]))
       [grant_at 1 5 5, grant_at 2 6 6, grant_at 3 7 7] =
     (Inr \<lparr>grants = [grant_at 2 6 6], approvedGrantsPk = Some [2]\<rparr>, Some (whitelist_of [2])) \<and>
   getApprovedGrants chain_env (Fetch_json None) None
       [grant_at 1 5 5, grant_at 2 6 6, grant_at 3 7 7] =
     (Inl (Error ''Failed to load whitelist and couldn't find a cached''), None)"
proof -
  let ?gs = "[grant_at 1 5 5, grant_at 2 6 6, grant_at 3 7 7]"
  have url: "truthy (whitelistUrl chain_env)"
    by (simp add: truthy_def chain_env_def)
  have e13: "whitelist_of [1, 3] (DGRANTS_CHAIN_ID chain_env) = Some [1, 3]"
    and e2: "whitelist_of [2] (DGRANTS_CHAIN_ID chain_env) = Some [2]"
    by (simp_all add: whitelist_of_def chain_env_def)
  have f13: "filter (\<lambda>grant. grant_id grant \<in> set [1, 3]) ?gs = [grant_at 1 5 5, grant_at 3 7 7]"
    and f2: "filter (\<lambda>grant. grant_id grant \<in> set [2]) ?gs = [grant_at 2 6 6]"
    by (simp_all add: grant_at_def)
  from getApprovedGrants_entry_present [OF url, where json = "whitelist_of [1, 3]" and ids = "[1, 3]"
      and storage = None and gs = ?gs] e13 f13
  have a: "getApprovedGrants chain_env (Fetch_json (Some (whitelist_of [1, 3]))) None ?gs =
     (Inr \<lparr>grants = [grant_at 1 5 5, grant_at 3 7 7], approvedGrantsPk = Some [1, 3]\<rparr>,
      Some (whitelist_of [1, 3]))"
    by simp
  from getApprovedGrants_entry_present [OF url, where response = Fetch_throws
      and cachedWhiteList = "whitelist_of [2]" and ids = "[2]" and gs = ?gs] e2 f2
  have b: "getApprovedGrants chain_env Fetch_throws (Some (whitelist_of [2])) ?gs =
     (Inr \<lparr>grants = [grant_at 2 6 6], approvedGrantsPk = Some [2]\<rparr>, Some (whitelist_of [2]))"
    by simp
  from getApprovedGrants_entry_present [OF url, where response = "Fetch_json None" and gs = ?gs]
  have c: "getApprovedGrants chain_env (Fetch_json None) None ?gs =
     (Inl (Error ''Failed to load whitelist and couldn't find a cached''), None)"
    by simp
  from url e13 a e2 b c show ?thesis by simp
qed

lemmas approve_defs = getApprovedGrants_def fallback_def filterWhiteListed_def truthy_def
  chain_env_def whitelist_of_def error_body_def grant_at_def

text \<open>
  C6, at the input where the code departs from it. A whitelist for chain 1 is stored, and
  the fetch answers with a JSON object that has no entry for the chain (the body of an
  HTTP error answer is one: line 291 does not look at \<open>res.ok\<close>). The object is
  stored over the cached whitelist at line 295 before it is used; the filter then throws
  a TypeError at line 278, and the \<open>fallback\<close> run by \<open>catch\<close> reads the object
  just stored and throws again. The grants are neither filtered by the fetched entry nor
  by the whitelist that was cached, and the next call whose fetch throws finds the cache
  overwritten. When the fetch itself throws, the same stored whitelist filters the
  grants.
\<close>

theorem getApprovedGrants_missing_entry:
  "getApprovedGrants chain_env (Fetch_json (Some error_body)) (Some (whitelist_of [2]))
       [grant_at 1 5 5, grant_at 2 6 6, grant_at 3 7 7] =
     (Inl TypeError, Some error_body) \<and>
   getApprovedGrants chain_env Fetch_throws (Some error_body)
       [grant_at 1 5 5, grant_at 2 6 6, grant_at 3 7 7] =
     (Inl TypeError, Some error_body) \<and>
   getApprovedGrants chain_env Fetch_throws (Some (whitelist_of [2]))
       [grant_at 1 5 5, grant_at 2 6 6, grant_at 3 7 7] =
     (Inr \<lparr>grants = [grant_at 2 6 6], approvedGrantsPk = Some [2]\<rparr>, Some (whitelist_of [2]))"
  by (simp add: approve_defs)

lemmas sync_defs = getAllGrants_def refreshes_def ls_blockNumber_def ls_grants_def
  first_fromBlock_def subgraph_step_def rpc_step_def finish_def obj_values_def cache_at_def array_index_def

text \<open>
  C5, at the input where the code departs from it. The cache is at block 99, the latest
  block is 100, and the subgraph request throws. The refresh starts with
  \<open>fromBlock = 100\<close>; the guard \<open>fromBlock < latestBlockNumber\<close> is false, so no
  RPC scan is sent and the grant created in block 100 is not merged, although the scan of
  blocks 100 to 100 would return it.
\<close>

theorem getAllGrants_one_block_behind:
  "recursiveGraphFetch failing_subgraph_env ''https://subgraph'' 100 = None \<and>
   batchFilterCall failing_subgraph_env ''GrantCreated'' 100 100 = Some [event_at 7 1000] \<and>
   getAllGrants failing_subgraph_env 100 False (Some (cache_at 99 [(1, grant_at 1 5 5)])) True =
     Inr \<lparr>lsGrants = [(1, grant_at 1 5 5)], returned = [grant_at 1 5 5], saved = True,
          requests = [Subgraph_request ''https://subgraph'' 100]\<rparr>"
  by (simp add: sync_defs failing_subgraph_env_def)

text \<open>
  One block earlier the fallback runs: both scans over blocks 99 to 100, and the grant
  is merged.
\<close>

lemma getAllGrants_two_blocks_behind:
  "getAllGrants failing_subgraph_env 100 False (Some (cache_at 98 [(1, grant_at 1 5 5)])) True =
     Inr \<lparr>lsGrants = [(1, grant_at 1 5 5), (7, grant_at 7 1000 1000)],
          returned = [grant_at 1 5 5, grant_at 7 1000 1000], saved = True,
          requests = [Subgraph_request ''https://subgraph'' 99,
                      Rpc_request ''GrantCreated'' 99 100, Rpc_request ''GrantUpdated'' 99 100]\<rparr>"
  by (simp add: sync_defs failing_subgraph_env_def grant_of_event_def toNumber_def event_at_def
      grant_at_def)






lemma subgraph_forEach_all:
  "map (grant_of_subgraph env) answer = map Some gs \<Longrightarrow>
     subgraph_forEach env answer obj = (assign_forEach gs obj, True)"
proof (induction answer arbitrary: gs obj)
  case Nil
  then show ?case by simp
next
  case (Cons a answer)
  from Cons.prems obtain g gs' where gs: "gs = g # gs'"
    and g: "grant_of_subgraph env a = Some g"
    and rest: "map (grant_of_subgraph env) answer = map Some gs'"
    by (cases gs) auto
  from Cons.IH [OF rest] g gs show ?case by simp
qed





lemma getAllGrants_steps:
  assumes "refreshes forceRefresh cache latestBlockNumber"
    and "subgraph_step env (first_fromBlock env cache) latestBlockNumber (ls_grants cache) =
      (obj1, fromBlock1, reqs1)"
    and "rpc_step env fromBlock1 latestBlockNumber obj1 = Inr (obj2, reqs2)"
  shows "getAllGrants env latestBlockNumber forceRefresh cache save =
     Inr (finish save obj2 (reqs1 @ reqs2))"
  by (simp only: getAllGrants_def assms if_True prod.case sum.case)

lemma subgraph_step_answers:
  assumes "SUBGRAPH_URL env = Some url" and "url \<noteq> []"
    and "recursiveGraphFetch env url fromBlock = Some answer"
    and "map (grant_of_subgraph env) answer = map Some gs"
  shows "subgraph_step env fromBlock latestBlockNumber obj =
     (assign_forEach gs obj, latestBlockNumber, [Subgraph_request url fromBlock])"
  using assms by (simp add: subgraph_step_def subgraph_forEach_all)

lemma subgraph_step_no_answer:
  assumes "\<not> truthy (SUBGRAPH_URL env) \<or>
      SUBGRAPH_URL env = Some url \<and> recursiveGraphFetch env url fromBlock = None"
  shows "\<exists>reqs. subgraph_step env fromBlock latestBlockNumber obj = (obj, fromBlock, reqs)"
  using assms
  by (cases "url = []") (auto simp add: subgraph_step_def truthy_def split: option.splits)

lemma rpc_step_skipped: "rpc_step env latestBlockNumber latestBlockNumber obj = Inr (obj, [])"
  by (simp add: rpc_step_def)

lemma rpc_step_scans:
  assumes "fromBlock < latestBlockNumber"
    and "batchFilterCall env ''GrantCreated'' fromBlock latestBlockNumber = Some newGrants"
    and "batchFilterCall env ''GrantUpdated'' fromBlock latestBlockNumber = Some updatedGrants"
    and "map_events env obj (newGrants @ updatedGrants) = Some gs"
  shows "rpc_step env fromBlock latestBlockNumber obj =
     Inr (assign_forEach gs obj,
       [Rpc_request ''GrantCreated'' fromBlock latestBlockNumber,
        Rpc_request ''GrantUpdated'' fromBlock latestBlockNumber])"
  using assms by (simp add: rpc_step_def)

lemma getAllGrants_subgraph_answers:
  assumes "refreshes forceRefresh cache latestBlockNumber"
    and "SUBGRAPH_URL env = Some url" and "url \<noteq> []"
    and "recursiveGraphFetch env url (first_fromBlock env cache) = Some answer"
    and "map (grant_of_subgraph env) answer = map Some gs"
  shows "getAllGrants env latestBlockNumber forceRefresh cache save =
     Inr (finish save (assign_forEach gs (ls_grants cache))
       ([Subgraph_request url (first_fromBlock env cache)] @ []))"
  using assms(1) subgraph_step_answers [OF assms(2-5)] rpc_step_skipped
  by (rule getAllGrants_steps)

lemma getAllGrants_rpc_scan:
  assumes "refreshes forceRefresh cache latestBlockNumber"
    and "\<not> truthy (SUBGRAPH_URL env) \<or>
         SUBGRAPH_URL env = Some url \<and>
         recursiveGraphFetch env url (first_fromBlock env cache) = None"
    and "first_fromBlock env cache < latestBlockNumber"
    and "batchFilterCall env ''GrantCreated'' (first_fromBlock env cache) latestBlockNumber =
         Some newGrants"
    and "batchFilterCall env ''GrantUpdated'' (first_fromBlock env cache) latestBlockNumber =
         Some updatedGrants"
    and "map_events env (ls_grants cache) (newGrants @ updatedGrants) = Some gs"
  shows "\<exists>reqs. getAllGrants env latestBlockNumber forceRefresh cache save =
     Inr (finish save (assign_forEach gs (ls_grants cache))
       (reqs @ [Rpc_request ''GrantCreated'' (first_fromBlock env cache) latestBlockNumber,
                Rpc_request ''GrantUpdated'' (first_fromBlock env cache) latestBlockNumber]))"
proof -
  from subgraph_step_no_answer [OF assms(2)] obtain reqs where
    "subgraph_step env (first_fromBlock env cache) latestBlockNumber (ls_grants cache) =
      (ls_grants cache, first_fromBlock env cache, reqs)" ..
  with assms(1) have eq: "getAllGrants env latestBlockNumber forceRefresh cache save =
     Inr (finish save (assign_forEach gs (ls_grants cache))
       (reqs @ [Rpc_request ''GrantCreated'' (first_fromBlock env cache) latestBlockNumber,
                Rpc_request ''GrantUpdated'' (first_fromBlock env cache) latestBlockNumber]))"
    using rpc_step_scans [OF assms(3-6)] by (rule getAllGrants_steps)
  show ?thesis
    by (rule exI [where x = reqs]) (rule eq)
qed














text \<open>
  The order of the keys: array indices first and ascending, larger keys after them in the
  order of their first assignment.
\<close>

lemma obj_set_key_order:
  "obj_set 3 c (obj_set 4294967295 b (obj_set 4294967296 a (obj_set 7 d []))) =
     [(3, c), (7, d), (4294967296, a), (4294967295, b)]"
  by (simp add: array_index_def)

end
